theory Spec2Isabelle
  imports Complex_Main "HOL-Library.AList"
begin

section \<open>The random source and the library calls of the simulator\<close>

text \<open>
  The simulator draws its entropy from Python's module-level \<^verbatim>\<open>random\<close> generator.
  The generator is modelled as an arbitrary infinite sequence of raw values together with
  the position of the next unread value; a seed fixes the sequence. The simulator asks
  for the same bounds in the same order in every draw (49 down to 44 for the sample, then
  43 for the choice), so the answers of any deterministic generator form such a sequence.
  Every theorem below holds for every source.
\<close>

record rng =
  source :: "nat \<Rightarrow> nat"
  cursor :: nat

datatype error = ValueError | IndexError

text \<open>\<^verbatim>\<open>_randbelow(n)\<close>, called with \<open>n > 0\<close> only: a value in \<open>[0, n)\<close>, one raw value consumed.\<close>

definition randbelow :: "nat \<Rightarrow> rng \<Rightarrow> nat \<times> rng" where
  "randbelow n r = (source r (cursor r) mod n, r\<lparr>cursor := cursor r + 1\<rparr>)"

text \<open>
  \<^verbatim>\<open>random.sample(population, k)\<close>. For a population of 49 and \<open>k = 6\<close> CPython takes
  its pool branch:
  \<^verbatim>\<open>
      pool = list(population)
      for i in range(k):
          j = randbelow(n - i)
          result[i] = pool[j]
          pool[j] = pool[n - i - 1]
  \<close>
  \<open>sample_loop pool m k\<close> runs the remaining \<open>k\<close> iterations with \<open>m = n - i\<close>.
\<close>

fun sample_loop :: "int list \<Rightarrow> nat \<Rightarrow> nat \<Rightarrow> rng \<Rightarrow> int list \<times> rng" where
  "sample_loop pool m 0 r = ([], r)"
| "sample_loop pool m (Suc k) r =
     (let (j, r1) = randbelow m r;
          x = pool ! j;
          (xs, r2) = sample_loop (pool[j := pool ! (m - 1)]) (m - 1) k r1
      in (x # xs, r2))"

definition sample :: "int list \<Rightarrow> nat \<Rightarrow> rng \<Rightarrow> error + (int list \<times> rng)" where
  "sample population k r =
     (if k > length population then Inl ValueError
      else Inr (sample_loop population (length population) k r))"

text \<open>\<^verbatim>\<open>random.choice(seq)\<close>: IndexError on an empty sequence, else \<^verbatim>\<open>seq[_randbelow(len(seq))]\<close>.\<close>

definition choice :: "int list \<Rightarrow> rng \<Rightarrow> error + (int \<times> rng)" where
  "choice seq r =
     (if seq = [] then Inl IndexError
      else (let (j, r1) = randbelow (length seq) r in Inr (seq ! j, r1)))"

section \<open>TOTOLottery\<close>

text \<open>The attributes set by \<^verbatim>\<open>__init__\<close>; they are never assigned again.\<close>

definition number_range :: "int list" where
  "number_range = [1..49]"

definition numbers_to_pick :: nat where
  "numbers_to_pick = 6"

subsection \<open>generate_winning_numbers\<close>

text \<open>
  \<^verbatim>\<open>list(set(self.number_range) - set(main_numbers))\<close>: the numbers of the range that were
  not drawn. The iteration order of a Python set is not specified; the model lists the
  remainder in ascending order.
\<close>

definition remaining_numbers :: "int list \<Rightarrow> int list" where
  "remaining_numbers main_numbers = filter (\<lambda>x. x \<notin> set main_numbers) number_range"

definition generate_winning_numbers :: "rng \<Rightarrow> error + ((int list \<times> int) \<times> rng)" where
  "generate_winning_numbers r =
     (case sample number_range numbers_to_pick r of
        Inl e \<Rightarrow> Inl e
      | Inr (picked, r1) \<Rightarrow>
          (let main_numbers = sort picked in
           case choice (remaining_numbers main_numbers) r1 of
             Inl e \<Rightarrow> Inl e
           | Inr (additional, r2) \<Rightarrow> Inr ((main_numbers, additional), r2)))"

subsection \<open>check_prize\<close>

record prize_result =
  prize :: string
  matching_numbers :: "int list"
  matches_count :: int
  has_additional :: bool
  is_jackpot :: bool

text \<open>
  \<^verbatim>\<open>list(set(player_numbers) & set(winning_numbers))\<close> is listed in ascending order (Python
  leaves the order open).
\<close>

definition check_prize :: "int list \<Rightarrow> int list \<Rightarrow> int \<Rightarrow> prize_result" where
  "check_prize player_numbers winning_numbers additional_number =
     (let matches = int (card (set player_numbers \<inter> set winning_numbers));
          has_add = (additional_number \<in> set player_numbers);
          matching = sorted_list_of_set (set player_numbers \<inter> set winning_numbers)
      in \<lparr> prize =
             (if matches = 6 then ''Group 1 Prize''
              else if matches = 5 \<and> has_add then ''Group 2 Prize''
              else if matches = 5 then ''Group 3 Prize''
              else if matches = 4 \<and> has_add then ''Group 4 Prize''
              else if matches = 4 then ''Group 5 Prize''
              else if matches = 3 \<and> has_add then ''Group 6 Prize''
              else ''No prize''),
           matching_numbers = matching,
           matches_count = matches,
           has_additional = has_add,
           is_jackpot = (matches = 6) \<rparr>)"

subsection \<open>calculate_odds\<close>

definition combinations :: "nat \<Rightarrow> nat \<Rightarrow> int" where
  "combinations n r = int (fact n) div (int (fact r) * int (fact (n - r)))"

definition calculate_odds :: int where
  "calculate_odds = combinations 49 6"

subsection \<open>calculate_years\<close>

text \<open>
  \<^verbatim>\<open>round(draws / draws_per_year, 1)\<close>. Python floats are modelled by the real numbers
  they denote: the division is exact and \<open>round\<close> rounds to one decimal place, ties to
  the even digit. Representation error of the doubles is not modelled, nor is the
  OverflowError of the division for a number of draws beyond the range of a double. No
  statement below depends on how a float is rounded.
\<close>

definition round1 :: "real \<Rightarrow> real" where
  "round1 x =
     (let y = x * 10; f = \<lfloor>y\<rfloor>; d = y - of_int f
      in of_int (if d < 1 / 2 then f else if 1 / 2 < d then f + 1
                 else if even f then f else f + 1) / 10)"

definition calculate_years :: "int \<Rightarrow> real" where
  "calculate_years n = (let draws_per_year = 104 in round1 (of_int n / draws_per_year))"

subsection \<open>simulate_until_jackpot\<close>

definition initial_prize_counts :: "(string \<times> int) list" where
  "initial_prize_counts =
     [(''Group 1 Prize'', 0), (''Group 2 Prize'', 0), (''Group 3 Prize'', 0),
      (''Group 4 Prize'', 0), (''Group 5 Prize'', 0), (''Group 6 Prize'', 0),
      (''No prize'', 0)]"

text \<open>
  Lines 111 to 115: the tally step of one trial. The dictionary is an association list in
  insertion order; the second component is what the branch prints.
\<close>

definition count_prize :: "(string \<times> int) list \<Rightarrow> string \<Rightarrow> (string \<times> int) list \<times> string list" where
  "count_prize counts prize_key =
     (case map_of counts prize_key of
        Some c \<Rightarrow> (AList.update prize_key (c + 1) counts, [])
      | None \<Rightarrow> (counts, [''Unknown prize category encountered: '' @ prize_key]))"

text \<open>
  The local variables of the loop. \<open>printed\<close> collects the unknown-category messages;
  the banner and the progress bar (whose length is computed in floating point) are display
  only and are left out, together with \<^verbatim>\<open>progress_interval\<close> and \<^verbatim>\<open>next_progress\<close>, which
  nothing else reads.
\<close>

record loop_state =
  cur_draws :: int
  cur_prize_counts :: "(string \<times> int) list"
  cur_jackpot_achieved :: bool
  printed :: "string list"
  random_state :: rng

text \<open>\<^verbatim>\<open>for draws in range(1, max_draws + 1)\<close>, entered with the next value \<open>i\<close> of the range.\<close>

function sim_loop :: "int list \<Rightarrow> int \<Rightarrow> int \<Rightarrow> loop_state \<Rightarrow> error + loop_state" where
  "sim_loop player_numbers max_draws i st =
     (if max_draws < i then Inr st
      else case generate_winning_numbers (random_state st) of
             Inl e \<Rightarrow> Inl e
           | Inr ((winning_numbers, additional), r1) \<Rightarrow>
               (let res = check_prize player_numbers winning_numbers additional;
                    (counts, out) = count_prize (cur_prize_counts st) (prize res);
                    st1 = st\<lparr>cur_draws := i, cur_prize_counts := counts,
                             printed := printed st @ out, random_state := r1\<rparr>
                in if is_jackpot res then Inr (st1\<lparr>cur_jackpot_achieved := True\<rparr>)
                   else sim_loop player_numbers max_draws (i + 1) st1))"
  by pat_completeness auto
termination
  by (relation "measure (\<lambda>(p, max_draws, i, st). nat (max_draws + 1 - i))") auto

declare sim_loop.simps [simp del]

record stats =
  draws :: int
  jackpot_achieved :: bool
  prize_counts :: "(string \<times> int) list"
  simulation_time :: real
  theoretical_odds :: int
  years_equivalent :: real

text \<open>
  The two readings of \<^verbatim>\<open>time.time()\<close> are inputs, taken as reals. The function returns
  the dictionary, the unknown-category messages it printed and the random source as it
  leaves it.
\<close>

definition simulate_until_jackpot ::
  "int list \<Rightarrow> int \<Rightarrow> real \<Rightarrow> real \<Rightarrow> rng \<Rightarrow> error + (stats \<times> string list \<times> rng)" where
  "simulate_until_jackpot player_numbers max_draws start_time end_time r =
     (case sim_loop player_numbers max_draws 1
             \<lparr> cur_draws = 0, cur_prize_counts = initial_prize_counts,
               cur_jackpot_achieved = False, printed = [], random_state = r \<rparr> of
        Inl e \<Rightarrow> Inl e
      | Inr st \<Rightarrow>
          Inr (\<lparr> draws = cur_draws st,
                 jackpot_achieved = cur_jackpot_achieved st,
                 prize_counts = cur_prize_counts st,
                 simulation_time = end_time - start_time,
                 theoretical_odds = calculate_odds,
                 years_equivalent = calculate_years (cur_draws st) \<rparr>,
               printed st, random_state st))"

subsection \<open>play_toto\<close>

record play_result =
  draw_date :: string
  player_numbers :: "int list"
  winning_numbers :: "int list"
  additional_number :: int
  result :: prize_result

text \<open>\<open>now\<close> is \<^verbatim>\<open>datetime.now().strftime("%Y-%m-%d %H:%M:%S")\<close>, the clock being an input.\<close>

definition play_toto :: "int list \<Rightarrow> string \<Rightarrow> rng \<Rightarrow> error + (play_result \<times> rng)" where
  "play_toto numbers now r =
     (case generate_winning_numbers r of
        Inl e \<Rightarrow> Inl e
      | Inr ((winning, additional), r1) \<Rightarrow>
          Inr (\<lparr> draw_date = now,
                 player_numbers = sort numbers,
                 winning_numbers = winning,
                 additional_number = additional,
                 result = check_prize numbers winning additional \<rparr>, r1))"

section \<open>Notions of the specification\<close>

text \<open>The NumberSet and Draw invariants of the data model.\<close>

definition number_set :: "int list \<Rightarrow> bool" where
  "number_set xs \<longleftrightarrow>
     length xs = 6 \<and> distinct xs \<and> sorted xs \<and> (\<forall>x \<in> set xs. 1 \<le> x \<and> x \<le> 49)"

definition draw_invariant :: "int list \<Rightarrow> int \<Rightarrow> bool" where
  "draw_invariant primary supplementary \<longleftrightarrow>
     number_set primary \<and> 1 \<le> supplementary \<and> supplementary \<le> 49 \<and>
     supplementary \<notin> set primary"

text \<open>
  The trial sequence of a run: the first \<open>n\<close> trials (generate, then classify) that the
  random source determines, none of them skipped, and the source after them.
\<close>

fun run_trials :: "int list \<Rightarrow> nat \<Rightarrow> rng \<Rightarrow> error + (prize_result list \<times> rng)" where
  "run_trials p 0 r = Inr ([], r)"
| "run_trials p (Suc n) r =
     (case generate_winning_numbers r of
        Inl e \<Rightarrow> Inl e
      | Inr ((w, a), r1) \<Rightarrow>
          (case run_trials p n r1 of
             Inl e \<Rightarrow> Inl e
           | Inr (rs, r2) \<Rightarrow> Inr (check_prize p w a # rs, r2)))"

text \<open>The tally of a list of prize names, one \<open>count_prize\<close> step per name.\<close>

definition tally_of :: "(string \<times> int) list \<Rightarrow> string list \<Rightarrow> (string \<times> int) list" where
  "tally_of counts ks = foldl (\<lambda>c k. fst (count_prize c k)) counts ks"

text \<open>
  The tier enumeration of the specification, its ordered decision list (section 4.2, first
  match wins) as a function of the match count and the supplementary flag, and the prize
  string that names each tier.
\<close>

datatype tier = JACKPOT | TIER2 | TIER3 | TIER4 | TIER5 | TIER6 | NONE

fun spec_tier :: "int \<Rightarrow> bool \<Rightarrow> tier" where
  "spec_tier m s =
     (if m = 6 then JACKPOT
      else if m = 5 \<and> s then TIER2
      else if m = 5 then TIER3
      else if m = 4 \<and> s then TIER4
      else if m = 4 then TIER5
      else if m = 3 \<and> s then TIER6
      else NONE)"

fun tier_name :: "tier \<Rightarrow> string" where
  "tier_name JACKPOT = ''Group 1 Prize''"
| "tier_name TIER2 = ''Group 2 Prize''"
| "tier_name TIER3 = ''Group 3 Prize''"
| "tier_name TIER4 = ''Group 4 Prize''"
| "tier_name TIER5 = ''Group 5 Prize''"
| "tier_name TIER6 = ''Group 6 Prize''"
| "tier_name NONE = ''No prize''"

text \<open>
  What one run of the loop from range value \<open>i\<close> achieves, in terms of the trials \<open>rs\<close>
  it executed: used to reason about \<open>sim_loop\<close>.
\<close>

definition loop_post ::
  "int list \<Rightarrow> int \<Rightarrow> int \<Rightarrow> loop_state \<Rightarrow> loop_state \<Rightarrow> prize_result list \<Rightarrow> bool" where
  "loop_post p N i st st' rs \<longleftrightarrow>
     run_trials p (length rs) (random_state st) = Inr (rs, random_state st') \<and>
     int (length rs) \<le> max 0 (N + 1 - i) \<and>
     (\<forall>t \<in> set (butlast rs). \<not> is_jackpot t) \<and>
     (cur_jackpot_achieved st' \<longleftrightarrow>
        cur_jackpot_achieved st \<or> (rs \<noteq> [] \<and> is_jackpot (last rs))) \<and>
     (rs = [] \<or> \<not> is_jackpot (last rs) \<longrightarrow> int (length rs) = max 0 (N + 1 - i)) \<and>
     cur_draws st' = (if rs = [] then cur_draws st else i + int (length rs) - 1) \<and>
     cur_prize_counts st' = tally_of (cur_prize_counts st) (map prize rs) \<and>
     printed st' = printed st \<and>
     map fst (cur_prize_counts st') = map fst initial_prize_counts \<and>
     sum_list (map snd (cur_prize_counts st')) =
       sum_list (map snd (cur_prize_counts st)) + int (length rs)"

text \<open>
  A random source for the examples: its first draw is 2, 45, 46, 47, 48, 49 with additional
  number 3, every later draw is 1, 45, 46, 47, 48, 49 with additional number 2.
\<close>

definition example_rng :: rng where
  "example_rng = \<lparr> source = (\<lambda>i. if i < 7 then 1 else 0), cursor = 0 \<rparr>"

section \<open>The sampling loop\<close>

lemma swap_remove:
  assumes "distinct ys" "j < length ys"
  shows "distinct (butlast (ys[j := last ys]))"
    and "set (butlast (ys[j := last ys])) = set ys - {ys ! j}"
proof -
  from assms(2) obtain zs l where ys: "ys = zs @ [l]"
    by (cases ys rule: rev_cases) auto
  have dz: "distinct zs" and l: "l \<notin> set zs" using assms(1) ys by auto
  show "distinct (butlast (ys[j := last ys]))"
  proof (cases "j < length zs")
    case True
    then show ?thesis using dz l by (simp add: ys list_update_append distinct_list_update)
  next
    case False
    then show ?thesis using dz assms(2) by (simp add: ys list_update_append)
  qed
  show "set (butlast (ys[j := last ys])) = set ys - {ys ! j}"
  proof (cases "j < length zs")
    case True
    then show ?thesis using dz l
      by (auto simp add: ys list_update_append set_update_distinct nth_append)
  next
    case False
    then have "j = length zs" using assms(2) ys by simp
    then show ?thesis using l by (auto simp add: ys list_update_append)
  qed
qed

lemma take_pool_step:
  assumes "0 < m" "m \<le> length pool"
  shows "take (m - 1) (pool[j := pool ! (m - 1)]) = butlast ((take m pool)[j := last (take m pool)])"
proof -
  have "last (take m pool) = pool ! (m - 1)"
  proof -
    have "take m pool \<noteq> []" using assms by auto
    then have "last (take m pool) = take m pool ! (length (take m pool) - 1)"
      by (rule last_conv_nth)
    then show ?thesis using assms by simp
  qed
  moreover have "butlast ((take m pool)[j := y]) = take (m - 1) (pool[j := y])" for y
    using assms by (simp add: butlast_conv_take take_update_swap min_def)
  ultimately show ?thesis by simp
qed

lemma sample_loop_props:
  "k \<le> m \<Longrightarrow> m \<le> length pool \<Longrightarrow> distinct (take m pool) \<Longrightarrow>
   distinct (fst (sample_loop pool m k r)) \<and>
   set (fst (sample_loop pool m k r)) \<subseteq> set (take m pool) \<and>
   length (fst (sample_loop pool m k r)) = k"
proof (induction k arbitrary: pool m r)
  case 0
  then show ?case by simp
next
  case (Suc k)
  define j where "j = source r (cursor r) mod m"
  define r1 where "r1 = r\<lparr>cursor := cursor r + 1\<rparr>"
  define pool' where "pool' = pool[j := pool ! (m - 1)]"
  have m: "0 < m" using Suc.prems by simp
  have j: "j < m" using m by (simp add: j_def)
  have jl: "j < length (take m pool)" using j Suc.prems by simp
  have tk: "take (m - 1) pool' = butlast ((take m pool)[j := last (take m pool)])"
    unfolding pool'_def using m Suc.prems(2) by (rule take_pool_step)
  have d': "distinct (take (m - 1) pool')"
    unfolding tk using Suc.prems(3) jl by (rule swap_remove(1))
  have s': "set (take (m - 1) pool') = set (take m pool) - {pool ! j}"
    unfolding tk using swap_remove(2)[OF Suc.prems(3) jl] j by simp
  have IH: "distinct (fst (sample_loop pool' (m - 1) k r1)) \<and>
   set (fst (sample_loop pool' (m - 1) k r1)) \<subseteq> set (take (m - 1) pool') \<and>
   length (fst (sample_loop pool' (m - 1) k r1)) = k"
    using Suc.prems d' by (intro Suc.IH) (auto simp: pool'_def)
  have unf: "fst (sample_loop pool m (Suc k) r) = pool ! j # fst (sample_loop pool' (m - 1) k r1)"
    by (simp add: randbelow_def j_def r1_def pool'_def split: prod.splits)
  have xin: "pool ! j \<in> set (take m pool)"
    using jl j by (metis nth_mem nth_take)
  show ?case unfolding unf using IH s' xin by auto
qed


lemma sample_number_range:
  obtains picked r1 where "sample number_range numbers_to_pick r = Inr (picked, r1)"
    "distinct picked" "set picked \<subseteq> {1..49}" "length picked = 6"
proof -
  have len: "length number_range = 49" by (simp add: number_range_def)
  have d: "distinct number_range" by (simp add: number_range_def)
  have P: "distinct (fst (sample_loop number_range 49 6 r)) \<and>
   set (fst (sample_loop number_range 49 6 r)) \<subseteq> set (take 49 number_range) \<and>
   length (fst (sample_loop number_range 49 6 r)) = 6"
    by (rule sample_loop_props) (simp_all add: len d)
  have s: "set (take 49 number_range) = {1..49}" by (simp add: number_range_def)

  have "sample number_range numbers_to_pick r = Inr (fst (sample_loop number_range 49 6 r), snd (sample_loop number_range 49 6 r))"
    by (simp add: sample_def numbers_to_pick_def len)
  then show ?thesis using P s that by metis
qed

lemma remaining_numbers_props:
  assumes "distinct main" "set main \<subseteq> {1..49}" "length main = 6"
  shows "length (remaining_numbers main) = 43"
    and "set (remaining_numbers main) = {1..49} - set main"
proof -
  show s: "set (remaining_numbers main) = {1..49} - set main"
    by (auto simp add: remaining_numbers_def number_range_def)
  have "distinct (remaining_numbers main)"
    by (simp add: remaining_numbers_def number_range_def)
  then have "length (remaining_numbers main) = card ({1..49::int} - set main)"
    using s by (metis distinct_card)
  also have "\<dots> = card {1..49::int} - card (set main)"
    using assms(2) by (intro card_Diff_subset) auto
  also have "card (set main) = 6" using assms by (simp add: distinct_card)
  finally show "length (remaining_numbers main) = 43" by simp
qed

lemma generate_winning_numbers_ok:
  obtains main additional r' where
    "generate_winning_numbers r = Inr ((main, additional), r')"
    "sorted main" "distinct main" "length main = 6" "set main \<subseteq> {1..49}"
    "additional \<in> set (remaining_numbers main)" "length (remaining_numbers main) = 43"
    "additional \<in> {1..49} - set main"
proof -
  obtain picked r1 where pk: "sample number_range numbers_to_pick r = Inr (picked, r1)"
    "distinct picked" "set picked \<subseteq> {1..49}" "length picked = 6"
    by (rule sample_number_range)
  define main where "main = sort picked"
  have m: "sorted main" "distinct main" "length main = 6" "set main \<subseteq> {1..49}"
    using pk by (simp_all add: main_def)
  have len: "length (remaining_numbers main) = 43"
    and st: "set (remaining_numbers main) = {1..49} - set main"
    using remaining_numbers_props[OF m(2) m(4) m(3)] by simp_all
  define j where "j = source r1 (cursor r1) mod 43"
  define additional where "additional = remaining_numbers main ! j"
  have "j < length (remaining_numbers main)" by (simp add: len j_def)
  then have a: "additional \<in> set (remaining_numbers main)"
    unfolding additional_def by (rule nth_mem)
  have ne: "remaining_numbers main \<noteq> []" using len by auto
  have "generate_winning_numbers r = Inr ((main, additional), r1\<lparr>cursor := cursor r1 + 1\<rparr>)"
    using ne
    by (simp add: generate_winning_numbers_def pk(1) main_def[symmetric] choice_def
        randbelow_def len j_def additional_def)
  then show ?thesis using m a len st that by blast
qed

section \<open>Classification and tally\<close>

lemma check_prize_fields:
  "matches_count (check_prize p w a) = int (card (set p \<inter> set w))"
  "has_additional (check_prize p w a) = (a \<in> set p)"
  "matching_numbers (check_prize p w a) = sorted_list_of_set (set p \<inter> set w)"
  "is_jackpot (check_prize p w a) = (card (set p \<inter> set w) = 6)"
  by (simp_all add: check_prize_def Let_def)

lemma check_prize_prize:
  "prize (check_prize p w a) =
     tier_name (spec_tier (int (card (set p \<inter> set w))) (a \<in> set p))"
  by (simp add: check_prize_def Let_def)

lemma tier_name_keys: "tier_name t \<in> set (map fst initial_prize_counts)"
  by (cases t) (simp_all add: initial_prize_counts_def)

lemma prize_in_keys: "prize (check_prize p w a) \<in> set (map fst initial_prize_counts)"
  unfolding check_prize_prize by (rule tier_name_keys)

lemma distinct_keys: "distinct (map fst initial_prize_counts)"
  by (simp add: initial_prize_counts_def)

lemma sum_update:
  fixes al :: "('k \<times> int) list"
  shows "distinct (map fst al) \<Longrightarrow> map_of al k = Some c \<Longrightarrow>
   sum_list (map snd (AList.update k v al)) = sum_list (map snd al) - c + v"
  by (induction al) (auto split: if_splits)

lemma count_prize_known:
  assumes "map fst counts = map fst initial_prize_counts" "k \<in> set (map fst initial_prize_counts)"
  obtains counts' where "count_prize counts k = (counts', [])"
    "map fst counts' = map fst initial_prize_counts"
    "sum_list (map snd counts') = sum_list (map snd counts) + 1"
proof -
  have "k \<in> fst ` set counts" using assms by (metis list.set_map)
  then obtain c where c: "map_of counts k = Some c"
    by (metis domD dom_map_of_conv_image_fst)
  have d: "distinct (map fst counts)" using assms(1) distinct_keys by simp
  have 1: "count_prize counts k = (AList.update k (c + 1) counts, [])"
    by (simp add: count_prize_def c)
  have 2: "map fst (AList.update k (c + 1) counts) = map fst initial_prize_counts"
    using assms by (simp add: AList.update_keys)
  have 3: "sum_list (map snd (AList.update k (c + 1) counts)) = sum_list (map snd counts) + 1"
    using sum_update[OF d c, of "c + 1"] by simp
  show ?thesis using 1 2 3 that by blast
qed

lemma every_pair_occurs:
  assumes "0 \<le> m" "m \<le> 6"
  shows "matches_count (check_prize [1, 2, 3, 4, 5, 6] [1..m] (if s then 1 else 50)) = m"
    and "has_additional (check_prize [1, 2, 3, 4, 5, 6] [1..m] (if s then 1 else 50)) = s"
proof -
  have "set [1, 2, 3, 4, 5, 6] \<inter> set [1..m] = {1..m}"
    using assms by auto
  then show "matches_count (check_prize [1, 2, 3, 4, 5, 6] [1..m] (if s then 1 else 50)) = m"
    using assms by (simp add: check_prize_fields)
  show "has_additional (check_prize [1, 2, 3, 4, 5, 6] [1..m] (if s then 1 else 50)) = s"
    by (simp add: check_prize_fields)
qed

section \<open>The simulation loop\<close>

lemma sim_loop_post:
  assumes "map fst (cur_prize_counts st) = map fst initial_prize_counts"
  shows "\<exists>st' rs. sim_loop p N i st = Inr st' \<and> loop_post p N i st st' rs"
  using assms
proof (induction n \<equiv> "nat (N + 1 - i)" arbitrary: i st)
  case 0
  then have "N < i" by simp
  then have "sim_loop p N i st = Inr st" and "loop_post p N i st st []"
    using 0 by (simp_all add: sim_loop.simps loop_post_def tally_of_def)
  then show ?case by blast
next
  case (Suc n)
  then have le: "i \<le> N" and n: "n = nat (N + 1 - (i + 1))" by simp_all
  obtain main additional r1 where
    g: "generate_winning_numbers (random_state st) = Inr ((main, additional), r1)"
    by (rule generate_winning_numbers_ok)
  define res where "res = check_prize p main additional"
  obtain counts where c: "count_prize (cur_prize_counts st) (prize res) = (counts, [])"
    "map fst counts = map fst initial_prize_counts"
    "sum_list (map snd counts) = sum_list (map snd (cur_prize_counts st)) + 1"
    using count_prize_known[OF Suc.prems prize_in_keys] unfolding res_def by metis
  define st1 where "st1 = st\<lparr>cur_draws := i, cur_prize_counts := counts,
                             printed := printed st @ [], random_state := r1\<rparr>"
  have unf: "sim_loop p N i st =
      (if is_jackpot res then Inr (st1\<lparr>cur_jackpot_achieved := True\<rparr>)
       else sim_loop p N (i + 1) st1)"
    using le by (subst sim_loop.simps) (simp add: g res_def[symmetric] c(1) st1_def)
  show ?case
  proof (cases "is_jackpot res")
    case True
    have "loop_post p N i st (st1\<lparr>cur_jackpot_achieved := True\<rparr>) [res]"
      using True le c g by (simp add: loop_post_def st1_def tally_of_def res_def)
    then show ?thesis using unf True by auto
  next
    case False
    have "map fst (cur_prize_counts st1) = map fst initial_prize_counts"
      using c(2) by (simp add: st1_def)
    from Suc.hyps(1)[OF n this] obtain st' rs where
      r: "sim_loop p N (i + 1) st1 = Inr st'" "loop_post p N (i + 1) st1 st' rs"
      by blast
    have "loop_post p N i st st' (res # rs)"
      using r(2) False le c g
      by (auto simp add: loop_post_def st1_def tally_of_def res_def)
    then show ?thesis using unf False r(1) by auto
  qed
qed

lemma loop_postD:
  assumes "loop_post p N i st st' rs"
  shows "run_trials p (length rs) (random_state st) = Inr (rs, random_state st')"
    and "int (length rs) \<le> max 0 (N + 1 - i)"
    and "\<forall>t \<in> set (butlast rs). \<not> is_jackpot t"
    and "cur_jackpot_achieved st' \<longleftrightarrow>
           cur_jackpot_achieved st \<or> (rs \<noteq> [] \<and> is_jackpot (last rs))"
    and "rs = [] \<or> \<not> is_jackpot (last rs) \<longrightarrow> int (length rs) = max 0 (N + 1 - i)"
    and "cur_draws st' = (if rs = [] then cur_draws st else i + int (length rs) - 1)"
    and "cur_prize_counts st' = tally_of (cur_prize_counts st) (map prize rs)"
    and "printed st' = printed st"
    and "map fst (cur_prize_counts st') = map fst initial_prize_counts"
    and "sum_list (map snd (cur_prize_counts st')) =
           sum_list (map snd (cur_prize_counts st)) + int (length rs)"
  using assms unfolding loop_post_def by blast+

lemma sum_initial_prize_counts: "sum_list (map snd initial_prize_counts) = 0"
  by (simp add: initial_prize_counts_def)

lemma simulate_loop_post:
  obtains st rs where
    "simulate_until_jackpot p N t0 t1 r =
       Inr (\<lparr> draws = cur_draws st, jackpot_achieved = cur_jackpot_achieved st,
              prize_counts = cur_prize_counts st, simulation_time = t1 - t0,
              theoretical_odds = calculate_odds,
              years_equivalent = calculate_years (cur_draws st) \<rparr>,
            printed st, random_state st)"
    "loop_post p N 1 \<lparr> cur_draws = 0, cur_prize_counts = initial_prize_counts,
               cur_jackpot_achieved = False, printed = [], random_state = r \<rparr> st rs"
proof -
  define st0 where "st0 = \<lparr> cur_draws = 0, cur_prize_counts = initial_prize_counts,
               cur_jackpot_achieved = False, printed = [], random_state = r \<rparr>"
  have "map fst (cur_prize_counts st0) = map fst initial_prize_counts"
    by (simp add: st0_def)
  then obtain st rs where l: "sim_loop p N 1 st0 = Inr st" "loop_post p N 1 st0 st rs"
    using sim_loop_post by blast
  show ?thesis
    by (rule that[of st rs]) (simp_all add: simulate_until_jackpot_def st0_def[symmetric] l)
qed

lemma run_trials_length:
  "run_trials p n r = Inr (rs, r') \<Longrightarrow> length rs = n"
  by (induction n arbitrary: r rs r') (auto split: sum.splits prod.splits)

lemma run_trials_prizes:
  "run_trials p n r = Inr (rs, r') \<Longrightarrow> \<forall>t \<in> set rs. prize t \<in> set (map fst initial_prize_counts)"
proof (induction n arbitrary: r rs r')
  case 0
  then show ?case by simp
next
  case (Suc n)
  then show ?case
    using prize_in_keys by (fastforce split: sum.splits prod.splits)
qed

lemma map_of_tally_of:
  assumes "map fst counts = map fst initial_prize_counts"
    and "set ks \<subseteq> set (map fst initial_prize_counts)"
    and "k \<in> set (map fst initial_prize_counts)"
  shows "map_of (tally_of counts ks) k = Some (the (map_of counts k) + int (count_list ks k))"
  using assms
proof (induction ks arbitrary: counts)
  case Nil
  then have "k \<in> fst ` set counts" by (metis list.set_map)
  then obtain c where "map_of counts k = Some c"
    by (metis domD dom_map_of_conv_image_fst)
  then show ?case by (simp add: tally_of_def)
next
  case (Cons x ks)
  have x: "x \<in> fst ` set counts" using Cons.prems by (metis list.set_intros(1) list.set_map subsetD)
  then obtain c where c: "map_of counts x = Some c"
    by (metis domD dom_map_of_conv_image_fst)
  define counts' where "counts' = AList.update x (c + 1) counts"
  have cp: "count_prize counts x = (counts', [])"
    by (simp add: count_prize_def c counts'_def)
  have "map fst counts' = map fst counts"
    using x by (simp add: counts'_def AList.update_keys)
  then have keys: "map fst counts' = map fst initial_prize_counts"
    using Cons.prems(1) by simp
  have step: "tally_of counts (x # ks) = tally_of counts' ks"
    by (simp add: tally_of_def cp)
  have IH: "map_of (tally_of counts' ks) k = Some (the (map_of counts' k) + int (count_list ks k))"
    using Cons.prems by (intro Cons.IH keys) auto
  have "k \<in> fst ` set counts" using Cons.prems by (metis list.set_map)
  then obtain d where d: "map_of counts k = Some d"
    by (metis domD dom_map_of_conv_image_fst)
  have "the (map_of counts' k) = the (map_of counts k) + (if x = k then 1 else 0)"
    using c d by (auto simp add: counts'_def AList.update_conv')
  then show ?case unfolding step IH by simp
qed

section \<open>Values used below\<close>

lemma spec_tier_table:
  "spec_tier 6 s = JACKPOT"
  "spec_tier 5 True = TIER2" "spec_tier 5 False = TIER3"
  "spec_tier 4 True = TIER4" "spec_tier 4 False = TIER5"
  "spec_tier 3 True = TIER6" "spec_tier 3 False = NONE"
  "spec_tier 2 s = NONE" "spec_tier 1 s = NONE" "spec_tier 0 s = NONE"
  by simp_all

lemma calculate_odds_value: "calculate_odds = 13983816"
  by (simp add: calculate_odds_def combinations_def fact_numeral del: of_nat_fact)

lemma example_loop_3:
  "map_sum id (\<lambda>st. (cur_draws st, cur_jackpot_achieved st, cur_prize_counts st, printed st))
     (sim_loop [1, 2, 3, 4, 5, 6] 3 1
        \<lparr> cur_draws = 0, cur_prize_counts = initial_prize_counts,
          cur_jackpot_achieved = False, printed = [], random_state = example_rng \<rparr>) =
   Inr (3, False,
        [(''Group 1 Prize'', 0), (''Group 2 Prize'', 0), (''Group 3 Prize'', 0),
         (''Group 4 Prize'', 0), (''Group 5 Prize'', 0), (''Group 6 Prize'', 0),
         (''No prize'', 3)], [])"
  by code_simp



section \<open>Claims about check_prize\<close>

text \<open>
  Claim C1. The prize that \<open>check_prize\<close> assigns is the tier that the ordered decision
  list of section 4.2 gives for the match count and the additional-number flag of the same
  result: 6 matches give Group 1 whatever the flag, 5 give Group 2 with the flag and
  Group 3 without, 4 give Group 4 with the flag and Group 5 without, 3 with the flag give
  Group 6, and everything else gives No prize. The prize, and the jackpot flag with it,
  is a function of these two values alone, and every pair of a match count from 0 to 6 and
  a flag is the pair of some call.
\<close>

theorem check_prize_tier:
  "prize (check_prize p w a) =
     tier_name (spec_tier (matches_count (check_prize p w a)) (has_additional (check_prize p w a))) \<and>
   is_jackpot (check_prize p w a) =
     (spec_tier (matches_count (check_prize p w a)) (has_additional (check_prize p w a)) = JACKPOT) \<and>
   (\<forall>m \<in> {0..6}. \<forall>s. \<exists>p w a.
      matches_count (check_prize p w a) = m \<and> has_additional (check_prize p w a) = s \<and>
      prize (check_prize p w a) = tier_name (spec_tier m s))"
proof -
  have tier: "prize (check_prize p w a) =
     tier_name (spec_tier (matches_count (check_prize p w a)) (has_additional (check_prize p w a)))"
    for p w a
    unfolding check_prize_fields by (rule check_prize_prize)
  have jack: "is_jackpot (check_prize p w a) =
     (spec_tier (matches_count (check_prize p w a)) (has_additional (check_prize p w a)) = JACKPOT)"
    by (simp add: check_prize_fields)
  have "\<exists>p w a.
      matches_count (check_prize p w a) = m \<and> has_additional (check_prize p w a) = s \<and>
      prize (check_prize p w a) = tier_name (spec_tier m s)" if "m \<in> {0..6}" for m s
  proof -
    let ?r = "check_prize [1, 2, 3, 4, 5, 6] [1..m] (if s then 1 else 50)"
    have "matches_count ?r = m" "has_additional ?r = s"
      using that every_pair_occurs by simp_all
    moreover from this have "prize ?r = tier_name (spec_tier m s)"
      using tier[of "[1, 2, 3, 4, 5, 6]" "[1..m]" "if s then 1 else 50"] by simp
    ultimately show ?thesis by blast
  qed
  then show ?thesis using tier jack by blast
qed

theorem check_prize_tier_witness:
  "matches_count (check_prize [1, 2, 3, 4, 5, 6] [1, 2, 3, 4, 5, 9] 7) = 5 \<and>
   has_additional (check_prize [1, 2, 3, 4, 5, 6] [1, 2, 3, 4, 5, 9] 7) = False \<and>
   prize (check_prize [1, 2, 3, 4, 5, 6] [1, 2, 3, 4, 5, 9] 7) = ''Group 3 Prize'' \<and>
   spec_tier 5 False = TIER3 \<and> (5::int) \<in> {0..6}"
proof -
  have e: "matches_count (check_prize [1, 2, 3, 4, 5, 6] [1, 2, 3, 4, 5, 9] 7) = 5 \<and>
    has_additional (check_prize [1, 2, 3, 4, 5, 6] [1, 2, 3, 4, 5, 9] 7) = False"
    by code_simp
  show ?thesis
    using e check_prize_tier [of "[1, 2, 3, 4, 5, 6]" "[1, 2, 3, 4, 5, 9]" 7] by simp
qed

text \<open>
  Claim C4. For player numbers satisfying the NumberSet invariant and any winning numbers
  and additional number, the match count is the cardinality of the intersection of the
  player numbers with the winning numbers and lies between 0 and 6, the additional flag
  says whether the additional number is one of the player numbers, and the matching
  numbers are, as a set, that intersection.
\<close>

theorem check_prize_matches:
  assumes "number_set p"
  shows "matches_count (check_prize p w a) = int (card (set p \<inter> set w)) \<and>
         0 \<le> matches_count (check_prize p w a) \<and> matches_count (check_prize p w a) \<le> 6 \<and>
         has_additional (check_prize p w a) = (a \<in> set p) \<and>
         set (matching_numbers (check_prize p w a)) = set p \<inter> set w"
proof -
  have "card (set p \<inter> set w) \<le> card (set p)"
    by (intro card_mono) auto
  also have "card (set p) = 6"
    using assms by (simp add: number_set_def distinct_card)
  finally show ?thesis by (simp add: check_prize_fields)
qed

theorem check_prize_matches_witness:
  "number_set [1, 2, 3, 4, 5, 6] \<and>
   check_prize [1, 2, 3, 4, 5, 6] [1, 2, 3, 4, 8, 9] 5 =
     \<lparr> prize = ''Group 4 Prize'', matching_numbers = [1, 2, 3, 4], matches_count = 4,
       has_additional = True, is_jackpot = False \<rparr> \<and>
   card (set [1, 2, 3, 4, 5, 6] \<inter> set [1, 2, 3, 4, 8, 9 :: int]) = 4"
proof -
  have h: "number_set [1, 2, 3, 4, 5, 6]" by (simp add: number_set_def)
  have e: "check_prize [1, 2, 3, 4, 5, 6] [1, 2, 3, 4, 8, 9] 5 =
     \<lparr> prize = ''Group 4 Prize'', matching_numbers = [1, 2, 3, 4], matches_count = 4,
       has_additional = True, is_jackpot = False \<rparr>" by code_simp
  show ?thesis
    using h e check_prize_matches [OF h, of "[1, 2, 3, 4, 8, 9]" 5] by simp
qed

text \<open>
  Claim C10. \<open>check_prize\<close> validates nothing: it has no raising branch, and for lists of any
  length, with duplicates or numbers out of range, it returns the classification computed
  from the set intersection of what it was given. The last conjunct runs it on player
  numbers of the wrong length, with a duplicate and with 50.
\<close>

theorem check_prize_total:
  "matches_count (check_prize p w a) = int (card (set p \<inter> set w)) \<and>
   has_additional (check_prize p w a) = (a \<in> set p) \<and>
   set (matching_numbers (check_prize p w a)) = set p \<inter> set w \<and>
   is_jackpot (check_prize p w a) = (card (set p \<inter> set w) = 6) \<and>
   check_prize [7, 7, 50] [7, 7, 7] 50 =
     \<lparr> prize = ''No prize'', matching_numbers = [7], matches_count = 1,
       has_additional = True, is_jackpot = False \<rparr>"
proof -
  have "check_prize [7, 7, 50] [7, 7, 7] 50 =
     \<lparr> prize = ''No prize'', matching_numbers = [7], matches_count = 1,
       has_additional = True, is_jackpot = False \<rparr>" by code_simp
  then show ?thesis by (simp add: check_prize_fields)
qed

theorem check_prize_total_witness:
  "check_prize [1, 2, 3, 4, 5, 6, 7] [1, 2, 3, 4, 5, 6] (- 1) =
     \<lparr> prize = ''Group 1 Prize'', matching_numbers = [1, 2, 3, 4, 5, 6], matches_count = 6,
       has_additional = False, is_jackpot = True \<rparr> \<and>
   card (set [1, 2, 3, 4, 5, 6, 7] \<inter> set [1, 2, 3, 4, 5, 6 :: int]) = 6"
proof -
  have e: "check_prize [1, 2, 3, 4, 5, 6, 7] [1, 2, 3, 4, 5, 6] (- 1) =
     \<lparr> prize = ''Group 1 Prize'', matching_numbers = [1, 2, 3, 4, 5, 6], matches_count = 6,
       has_additional = False, is_jackpot = True \<rparr>" by code_simp
  show ?thesis
    using e check_prize_total [of "[1, 2, 3, 4, 5, 6, 7]" "[1, 2, 3, 4, 5, 6]" "- 1"] by simp
qed

section \<open>Claims about generate_winning_numbers and calculate_odds\<close>

text \<open>
  Claim C2. Whatever the random source, \<open>generate_winning_numbers\<close> returns a draw (it
  raises neither of the library errors), and the draw satisfies the Draw invariant: the
  main numbers are sorted, six, distinct and between 1 and 49; the additional number is
  between 1 and 49 and is not a main number; it is an element of the remainder pool, which
  has 43 elements.
\<close>

theorem generate_winning_numbers_draw_invariant:
  "\<exists>main additional r'.
     generate_winning_numbers r = Inr ((main, additional), r') \<and>
     sorted main \<and> length main = 6 \<and> distinct main \<and> (\<forall>x \<in> set main. 1 \<le> x \<and> x \<le> 49) \<and>
     1 \<le> additional \<and> additional \<le> 49 \<and> additional \<notin> set main \<and>
     length (remaining_numbers main) = 43 \<and> additional \<in> set (remaining_numbers main) \<and>
     draw_invariant main additional"
proof -
  obtain main additional r' where g:
    "generate_winning_numbers r = Inr ((main, additional), r')"
    "sorted main" "distinct main" "length main = 6" "set main \<subseteq> {1..49}"
    "additional \<in> set (remaining_numbers main)" "length (remaining_numbers main) = 43"
    "additional \<in> {1..49} - set main"
    by (rule generate_winning_numbers_ok)
  have m: "\<forall>x \<in> set main. 1 \<le> x \<and> x \<le> 49" using g(5) by auto
  have a: "1 \<le> additional \<and> additional \<le> 49 \<and> additional \<notin> set main" using g(8) by auto
  have "draw_invariant main additional"
    using g m a by (simp add: draw_invariant_def number_set_def)
  then show ?thesis using g m a by blast
qed

theorem generate_winning_numbers_draw_invariant_witness:
  "\<exists>r'. generate_winning_numbers example_rng = Inr (([2, 45, 46, 47, 48, 49], 3), r') \<and>
     draw_invariant [2, 45, 46, 47, 48, 49] 3 \<and>
     length (remaining_numbers [2, 45, 46, 47, 48, 49]) = 43"
proof -
  have e: "map_sum id fst (generate_winning_numbers example_rng) = Inr ([2, 45, 46, 47, 48, 49], 3)"
    by code_simp
  show ?thesis
    using e generate_winning_numbers_draw_invariant [of example_rng] by auto
qed

text \<open>
  Claim C8. \<open>calculate_odds\<close> is the integer 13,983,816, the binomial coefficient of 49 over
  6, computed by integer factorials and integer division; every summary reports this
  value, whatever the player numbers, the cap, the clock and the random source.
\<close>

theorem calculate_odds_exact:
  "calculate_odds = 13983816 \<and> calculate_odds = int (49 choose 6) \<and>
   (\<exists>s out r'. simulate_until_jackpot p N t0 t1 r = Inr (s, out, r') \<and>
      theoretical_odds s = 13983816)"
proof -
  have "(49 choose 6) = (13983816::nat)"
    by (simp add: binomial_fact' fact_numeral)
  then have 1: "calculate_odds = 13983816 \<and> calculate_odds = int (49 choose 6)"
    using calculate_odds_value by simp
  obtain st rs where s: "simulate_until_jackpot p N t0 t1 r =
       Inr (\<lparr> draws = cur_draws st, jackpot_achieved = cur_jackpot_achieved st,
              prize_counts = cur_prize_counts st, simulation_time = t1 - t0,
              theoretical_odds = calculate_odds,
              years_equivalent = calculate_years (cur_draws st) \<rparr>,
            printed st, random_state st)"
    and "loop_post p N 1 \<lparr> cur_draws = 0, cur_prize_counts = initial_prize_counts,
               cur_jackpot_achieved = False, printed = [], random_state = r \<rparr> st rs"
    by (rule simulate_loop_post)
  from s have "\<exists>s out r'. simulate_until_jackpot p N t0 t1 r = Inr (s, out, r') \<and>
      theoretical_odds s = 13983816"
    using calculate_odds_value by simp
  then show ?thesis using 1 by simp
qed

theorem calculate_odds_exact_witness:
  "calculate_odds = 13983816 \<and>
   (\<exists>s out r'. simulate_until_jackpot [1, 2, 3, 4, 5, 6] 3 0 1 example_rng = Inr (s, out, r') \<and>
      theoretical_odds s = 13983816 \<and> draws s = 3)"
  using example_loop_3 calculate_odds_exact [of "[1, 2, 3, 4, 5, 6]" 3 0 1 example_rng]
  by (auto simp add: simulate_until_jackpot_def split: sum.splits)

section \<open>Claims about simulate_until_jackpot\<close>

text \<open>
  Claim C3. For every cap of at least 1 (and any player numbers), the run returns a
  summary whose tally has the seven initial keys, whose counts sum to the reported number
  of draws, whose number of draws is at most the cap, and equals the cap when no jackpot
  was achieved.
\<close>

theorem simulate_tally_sum:
  assumes "1 \<le> N"
  shows "\<exists>s out r'.
     simulate_until_jackpot p N t0 t1 r = Inr (s, out, r') \<and>
     map fst (prize_counts s) = map fst initial_prize_counts \<and>
     sum_list (map snd (prize_counts s)) = draws s \<and>
     draws s \<le> N \<and>
     (\<not> jackpot_achieved s \<longrightarrow> draws s = N)"
proof -
  obtain st rs where s: "simulate_until_jackpot p N t0 t1 r =
       Inr (\<lparr> draws = cur_draws st, jackpot_achieved = cur_jackpot_achieved st,
              prize_counts = cur_prize_counts st, simulation_time = t1 - t0,
              theoretical_odds = calculate_odds,
              years_equivalent = calculate_years (cur_draws st) \<rparr>,
            printed st, random_state st)"
    and l: "loop_post p N 1 \<lparr> cur_draws = 0, cur_prize_counts = initial_prize_counts,
               cur_jackpot_achieved = False, printed = [], random_state = r \<rparr> st rs"
    by (rule simulate_loop_post)
  have len: "int (length rs) \<le> N" using loop_postD(2)[OF l] assms by simp
  have d: "cur_draws st = int (length rs)" using loop_postD(6)[OF l] by simp
  have sm: "sum_list (map snd (cur_prize_counts st)) = int (length rs)"
    using loop_postD(10)[OF l] sum_initial_prize_counts by simp
  have k: "map fst (cur_prize_counts st) = map fst initial_prize_counts"
    using loop_postD(9)[OF l] .
  have nj: "\<not> cur_jackpot_achieved st \<longrightarrow> int (length rs) = N"
    using loop_postD(4)[OF l] loop_postD(5)[OF l] assms by auto
  show ?thesis unfolding s using len d sm k nj by simp
qed

theorem simulate_tally_sum_witness:
  "(1::int) \<le> 3 \<and>
   (\<exists>s out r'. simulate_until_jackpot [1, 2, 3, 4, 5, 6] 3 0 1 example_rng = Inr (s, out, r') \<and>
      prize_counts s =
        [(''Group 1 Prize'', 0), (''Group 2 Prize'', 0), (''Group 3 Prize'', 0),
         (''Group 4 Prize'', 0), (''Group 5 Prize'', 0), (''Group 6 Prize'', 0),
         (''No prize'', 3)] \<and>
      sum_list (map snd (prize_counts s)) = draws s \<and> draws s = 3 \<and> \<not> jackpot_achieved s)"
proof -
  have h: "(1::int) \<le> 3" by simp
  show ?thesis
    using h example_loop_3
      simulate_tally_sum [OF h, of "[1, 2, 3, 4, 5, 6]" 0 1 example_rng]
    by (auto simp add: simulate_until_jackpot_def split: sum.splits)
qed



text \<open>
  Claim C9. The prize computed by \<open>check_prize\<close> is always one of the seven keys of the
  initial tally, for valid inputs in particular. So no run prints the message of the
  unknown-category branch, and after a run each of the seven entries holds the number of
  executed trials with that prize: every trial incremented exactly one entry.
\<close>

theorem unknown_prize_category_unreachable:
  "prize (check_prize p w a) \<in> set (map fst initial_prize_counts) \<and>
   (\<exists>s r' rs.
      simulate_until_jackpot p N t0 t1 r = Inr (s, [], r') \<and>
      run_trials p (length rs) r = Inr (rs, r') \<and>
      (\<forall>k \<in> set (map fst initial_prize_counts).
         map_of (prize_counts s) k = Some (int (count_list (map prize rs) k))) \<and>
      sum_list (map snd (prize_counts s)) = int (length rs))"
proof -
  obtain st rs where s: "simulate_until_jackpot p N t0 t1 r =
       Inr (\<lparr> draws = cur_draws st, jackpot_achieved = cur_jackpot_achieved st,
              prize_counts = cur_prize_counts st, simulation_time = t1 - t0,
              theoretical_odds = calculate_odds,
              years_equivalent = calculate_years (cur_draws st) \<rparr>,
            printed st, random_state st)"
    and l: "loop_post p N 1 \<lparr> cur_draws = 0, cur_prize_counts = initial_prize_counts,
               cur_jackpot_achieved = False, printed = [], random_state = r \<rparr> st rs"
    by (rule simulate_loop_post)
  have 1: "run_trials p (length rs) r = Inr (rs, random_state st)"
    using loop_postD(1)[OF l] by simp
  have 2: "printed st = []" using loop_postD(8)[OF l] by simp
  have 3: "cur_prize_counts st = tally_of initial_prize_counts (map prize rs)"
    using loop_postD(7)[OF l] by simp
  have 4: "sum_list (map snd (cur_prize_counts st)) = int (length rs)"
    using loop_postD(10)[OF l] sum_initial_prize_counts by simp
  have ks: "set (map prize rs) \<subseteq> set (map fst initial_prize_counts)"
    using run_trials_prizes[OF 1] by auto
  have 5: "\<forall>k \<in> set (map fst initial_prize_counts).
         map_of (cur_prize_counts st) k = Some (int (count_list (map prize rs) k))"
  proof
    fix k assume k: "k \<in> set (map fst initial_prize_counts)"
    have "the (map_of initial_prize_counts k) = 0"
      using k by (auto simp add: initial_prize_counts_def)
    then show "map_of (cur_prize_counts st) k = Some (int (count_list (map prize rs) k))"
      unfolding 3 using map_of_tally_of[OF refl ks k] by simp
  qed
  have "\<exists>s r' rs.
      simulate_until_jackpot p N t0 t1 r = Inr (s, [], r') \<and>
      run_trials p (length rs) r = Inr (rs, r') \<and>
      (\<forall>k \<in> set (map fst initial_prize_counts).
         map_of (prize_counts s) k = Some (int (count_list (map prize rs) k))) \<and>
      sum_list (map snd (prize_counts s)) = int (length rs)"
    unfolding s using 1 2 4 5 by auto
  then show ?thesis using prize_in_keys by blast
qed

theorem unknown_prize_category_unreachable_witness:
  "prize (check_prize [1, 2, 3, 4, 5, 6] [1, 2, 3, 4, 8, 9] 5) = ''Group 4 Prize'' \<and>
   (\<exists>s r'. simulate_until_jackpot [1, 2, 3, 4, 5, 6] 3 0 1 example_rng = Inr (s, [], r') \<and>
      map_of (prize_counts s) ''No prize'' = Some 3 \<and>
      map_of (prize_counts s) ''Group 1 Prize'' = Some 0 \<and>
      sum_list (map snd (prize_counts s)) = 3)"
proof -
  have e: "prize (check_prize [1, 2, 3, 4, 5, 6] [1, 2, 3, 4, 8, 9] 5) = ''Group 4 Prize''"
    by code_simp
  show ?thesis
    using e example_loop_3
      unknown_prize_category_unreachable
        [of "[1, 2, 3, 4, 5, 6]" "[1, 2, 3, 4, 8, 9]" 5 3 0 1 example_rng]
    by (auto simp add: simulate_until_jackpot_def split: sum.splits)
qed

text \<open>
  Claim C6, as amended. With a cap below 1 \<open>simulate_until_jackpot\<close> raises nothing: it
  runs no trial, leaves the random source untouched and returns the summary with 0 draws,
  no jackpot and the seven counts at zero.
\<close>

theorem simulate_no_trials:
  assumes "N < 1"
  shows "\<exists>s. simulate_until_jackpot p N t0 t1 r = Inr (s, [], r) \<and>
     draws s = 0 \<and> \<not> jackpot_achieved s \<and> prize_counts s = initial_prize_counts"
  using assms by (simp add: simulate_until_jackpot_def sim_loop.simps)

theorem simulate_no_trials_witness:
  "(- 5 :: int) < 1 \<and>
   (\<exists>s. simulate_until_jackpot [1, 2, 3, 4, 5, 6] (- 5) 10 12 example_rng =
          Inr (s, [], example_rng) \<and>
      draws s = 0 \<and> \<not> jackpot_achieved s \<and> sum_list (map snd (prize_counts s)) = 0)"
proof -
  have h: "(- 5 :: int) < 1" by simp
  show ?thesis
    using h sum_initial_prize_counts
      simulate_no_trials [OF h, of "[1, 2, 3, 4, 5, 6]" 10 12 example_rng]
    by auto
qed

text \<open>
  Claim C6 as stated asks for an InvalidInput error when the cap is below 1. With the cap 0
  the function returns a summary instead.
\<close>

theorem simulate_max_draws_zero_returns:
  "\<not> isl (simulate_until_jackpot [1, 2, 3, 4, 5, 6] 0 0 1 example_rng) \<and>
   draws (fst (projr (simulate_until_jackpot [1, 2, 3, 4, 5, 6] 0 0 1 example_rng))) = 0 \<and>
   prize_counts (fst (projr (simulate_until_jackpot [1, 2, 3, 4, 5, 6] 0 0 1 example_rng))) =
     initial_prize_counts"
  by (simp add: simulate_until_jackpot_def sim_loop.simps)

section \<open>Reproducibility\<close>

text \<open>
  Claim C7, as amended. From the same random source and with the same player numbers, two
  runs of \<open>play_toto\<close> return the same player numbers, winning numbers, additional number
  and classification and leave the source in the same state; they differ at most in
  \<open>draw_date\<close>, which is the clock reading of each run. Two runs of
  \<open>simulate_until_jackpot\<close> with the same cap execute the same trials, print the same and
  return summaries that agree in every field except \<open>simulation_time\<close>, which is the
  difference of the clock readings of each run.
\<close>

theorem runs_agree_up_to_clock:
  "(\<exists>w a res r'.
      play_toto p now1 r =
        Inr (\<lparr> draw_date = now1, player_numbers = sort p, winning_numbers = w,
               additional_number = a, result = res \<rparr>, r') \<and>
      play_toto p now2 r =
        Inr (\<lparr> draw_date = now2, player_numbers = sort p, winning_numbers = w,
               additional_number = a, result = res \<rparr>, r')) \<and>
   (\<exists>s1 s2 out r' rs.
      simulate_until_jackpot p N t0 t1 r = Inr (s1, out, r') \<and>
      simulate_until_jackpot p N t2 t3 r = Inr (s2, out, r') \<and>
      s2 = s1\<lparr>simulation_time := simulation_time s2\<rparr> \<and>
      run_trials p (length rs) r = Inr (rs, r') \<and> draws s1 = int (length rs))"
proof -
  obtain w a r1 where g: "generate_winning_numbers r = Inr ((w, a), r1)"
    by (rule generate_winning_numbers_ok)
  have A: "\<exists>w a res r'.
      play_toto p now1 r =
        Inr (\<lparr> draw_date = now1, player_numbers = sort p, winning_numbers = w,
               additional_number = a, result = res \<rparr>, r') \<and>
      play_toto p now2 r =
        Inr (\<lparr> draw_date = now2, player_numbers = sort p, winning_numbers = w,
               additional_number = a, result = res \<rparr>, r')"
    by (simp add: play_toto_def g)
  define st0 where "st0 = \<lparr> cur_draws = 0, cur_prize_counts = initial_prize_counts,
               cur_jackpot_achieved = False, printed = [], random_state = r \<rparr>"
  have "map fst (cur_prize_counts st0) = map fst initial_prize_counts"
    by (simp add: st0_def)
  then obtain st rs where l: "sim_loop p N 1 st0 = Inr st" "loop_post p N 1 st0 st rs"
    using sim_loop_post by blast
  have 1: "run_trials p (length rs) r = Inr (rs, random_state st)"
    using loop_postD(1)[OF l(2)] by (simp add: st0_def)
  have 2: "cur_draws st = int (length rs)"
    using loop_postD(6)[OF l(2)] by (simp add: st0_def)
  have B: "\<exists>s1 s2 out r' rs.
      simulate_until_jackpot p N t0 t1 r = Inr (s1, out, r') \<and>
      simulate_until_jackpot p N t2 t3 r = Inr (s2, out, r') \<and>
      s2 = s1\<lparr>simulation_time := simulation_time s2\<rparr> \<and>
      run_trials p (length rs) r = Inr (rs, r') \<and> draws s1 = int (length rs)"
    using 1 2 by (simp add: simulate_until_jackpot_def st0_def[symmetric] l(1)) blast
  show ?thesis using A B by (rule conjI)
qed

theorem runs_agree_up_to_clock_witness:
  "\<exists>r'. play_toto [6, 5, 4, 3, 2, 1] ''2024-01-01 00:00:00'' example_rng =
        Inr (\<lparr> draw_date = ''2024-01-01 00:00:00'', player_numbers = [1, 2, 3, 4, 5, 6],
               winning_numbers = [2, 45, 46, 47, 48, 49], additional_number = 3,
               result = check_prize [6, 5, 4, 3, 2, 1] [2, 45, 46, 47, 48, 49] 3 \<rparr>, r') \<and>
      play_toto [6, 5, 4, 3, 2, 1] ''2024-01-01 00:00:01'' example_rng =
        Inr (\<lparr> draw_date = ''2024-01-01 00:00:01'', player_numbers = [1, 2, 3, 4, 5, 6],
               winning_numbers = [2, 45, 46, 47, 48, 49], additional_number = 3,
               result = check_prize [6, 5, 4, 3, 2, 1] [2, 45, 46, 47, 48, 49] 3 \<rparr>, r')"
proof -
  have e: "map_sum id fst (generate_winning_numbers example_rng) = Inr ([2, 45, 46, 47, 48, 49], 3)"
    by code_simp
  have s: "sort [6, 5, 4, 3, 2, 1 :: int] = [1, 2, 3, 4, 5, 6]" by simp
  show ?thesis
    using e s
      runs_agree_up_to_clock [of "[6, 5, 4, 3, 2, 1]" "''2024-01-01 00:00:00''" example_rng
        "''2024-01-01 00:00:01''" 3 0 1 0 1]
    by (auto simp add: play_toto_def split: sum.splits)
qed

text \<open>
  Claim C7 as stated asks for identical results. Two runs of \<open>play_toto\<close> from the same
  source, one second apart, return different dictionaries.
\<close>

theorem play_toto_clock_counterexample:
  "play_toto [1, 2, 3, 4, 5, 6] ''2024-01-01 00:00:00'' example_rng \<noteq>
   play_toto [1, 2, 3, 4, 5, 6] ''2024-01-01 00:00:01'' example_rng"
proof
  assume eq: "play_toto [1, 2, 3, 4, 5, 6] ''2024-01-01 00:00:00'' example_rng =
    play_toto [1, 2, 3, 4, 5, 6] ''2024-01-01 00:00:01'' example_rng"
  obtain w a r1 where g: "generate_winning_numbers example_rng = Inr ((w, a), r1)"
    by (rule generate_winning_numbers_ok)
  show False using eq by (simp add: play_toto_def g)
qed

end
